theory Spec2Isabelle
  imports Main "HOL-Library.AList" "HOL-Library.Char_ord" "HOL-Library.List_Lexorder"
begin

section \<open>Python values and exceptions\<close>

text \<open>
  A stored payload is either Python's \<open>None\<close> or some other object. \<open>None\<close> is a
  value like any other: it can be stored under a key and read back.
\<close>

datatype 'a pyval = PyNone | PyObj 'a

text \<open>
  The exceptions that occur in \<open>thebot/__init__.py\<close>, together with the three builtin
  classes that derive from \<open>BaseException\<close> but not from \<open>Exception\<close>. The clause
  \<open>except Exception\<close> catches exactly the classes for which \<open>is_Exception\<close> holds.
\<close>

datatype exn =
    KeyError string
  | RuntimeError string
  | ReError string
  | NotImplementedError string
  | TypeError string
  | OtherException string
  | SystemExit
  | KeyboardInterrupt
  | GeneratorExit

fun is_Exception :: "exn \<Rightarrow> bool" where
  "is_Exception SystemExit = False"
| "is_Exception KeyboardInterrupt = False"
| "is_Exception GeneratorExit = False"
| "is_Exception _ = True"

section \<open>Storage: namespaced views over one shelf\<close>

text \<open>
  The backing object \<open>self._shelve\<close> is a dictionary from byte strings to pickled
  values. It is modelled as an association list; the order of the list stands for the
  (unspecified) order in which the shelf enumerates its keys.
\<close>

type_synonym 'a shelf = "(string \<times> 'a pyval) list"

definition shelf_getitem :: "'a shelf \<Rightarrow> string \<Rightarrow> exn + 'a pyval" where
  "shelf_getitem s k = (case map_of s k of None \<Rightarrow> Inl (KeyError k) | Some v \<Rightarrow> Inr v)"

definition shelf_get :: "'a shelf \<Rightarrow> string \<Rightarrow> 'a pyval" where
  \<comment> \<open>\<open>Shelf.get(key)\<close> with the default \<open>default=None\<close>.\<close>
  "shelf_get s k = (case map_of s k of None \<Rightarrow> PyNone | Some v \<Rightarrow> v)"

definition shelf_setitem :: "'a shelf \<Rightarrow> string \<Rightarrow> 'a pyval \<Rightarrow> 'a shelf" where
  "shelf_setitem s k v = AList.update k v s"

definition shelf_keys :: "'a shelf \<Rightarrow> string list" where
  "shelf_keys s = map fst s"

definition startswith :: "string \<Rightarrow> string \<Rightarrow> bool" where
  \<comment> \<open>\<open>x.startswith(p)\<close>\<close>
  "startswith x p = (take (length p) x = p)"

text \<open>
  Several \<open>Storage\<close> objects may hold the same shelf object, so shelves live in a
  store indexed by object identity and a \<open>Storage\<close> holds a reference into it.
\<close>

type_synonym 'a heap = "nat \<Rightarrow> 'a shelf"

record Storage =
  shelve :: nat
  prefix :: string

definition Storage_getitem :: "Storage \<Rightarrow> string \<Rightarrow> 'a heap \<Rightarrow> exn + 'a pyval" where
  "Storage_getitem self name h = shelf_getitem (h (shelve self)) (prefix self @ name)"

definition Storage_get :: "Storage \<Rightarrow> string \<Rightarrow> 'a heap \<Rightarrow> 'a pyval" where
  "Storage_get self name h = shelf_get (h (shelve self)) (prefix self @ name)"

definition Storage_setitem :: "Storage \<Rightarrow> string \<Rightarrow> 'a pyval \<Rightarrow> 'a heap \<Rightarrow> 'a heap" where
  "Storage_setitem self name v h =
     h(shelve self := shelf_setitem (h (shelve self)) (prefix self @ name) v)"

definition Storage_keys :: "Storage \<Rightarrow> 'a heap \<Rightarrow> string list" where
  "Storage_keys self h =
     filter (\<lambda>x. startswith x (prefix self)) (shelf_keys (h (shelve self)))"

definition with_prefix :: "Storage \<Rightarrow> string \<Rightarrow> Storage" where
  \<comment> \<open>\<open>Storage(self._shelve, prefix=prefix)\<close>: the shelf is passed on, the prefix is the argument.\<close>
  "with_prefix self p = \<lparr>shelve = shelve self, prefix = p\<rparr>"

text \<open>The specification's reading of \<open>keys()\<close>: the logical keys, prefix stripped.\<close>

definition logical_keys :: "Storage \<Rightarrow> 'a heap \<Rightarrow> string set" where
  "logical_keys self h = {K. prefix self @ K \<in> set (shelf_keys (h (shelve self)))}"

text \<open>The specification's reading of \<open>withPrefix\<close>: the prefix is appended.\<close>

definition with_prefix_appended :: "Storage \<Rightarrow> string \<Rightarrow> Storage" where
  "with_prefix_appended self q = \<lparr>shelve = shelve self, prefix = prefix self @ q\<rparr>"

text \<open>
  The objects of \<open>test_storage_nesting\<close>: the storage of the bot with the empty prefix,
  two views made from it, and the shelf after the two writes of the test.
\<close>

definition root :: Storage where
  "root = \<lparr>shelve = 0, prefix = []\<rparr>"

definition empty_heap :: "string heap" where
  "empty_heap = (\<lambda>_. [])"

definition first_view :: Storage where
  "first_view = with_prefix root ''first:''"

definition second_view :: Storage where
  "second_view = with_prefix root ''second:''"

definition nesting_heap :: "string heap" where
  "nesting_heap =
     Storage_setitem second_view ''one'' (PyObj ''dict'')
       (Storage_setitem first_view ''blah'' (PyObj ''minor'') empty_heap)"


section \<open>Plugin.get_callbacks and the route decorator\<close>

text \<open>
  A function object carries the handler it stands for and, once \<open>route\<close> has touched it,
  the attribute \<open>_patterns\<close>. \<open>None\<close> means that the attribute is missing.
\<close>

datatype 'h func = Func (handler: 'h) (patterns_attr: "string list option")

definition route :: "string \<Rightarrow> 'h func \<Rightarrow> 'h func" where
  "route pattern func =
     (let ps = (case patterns_attr func of None \<Rightarrow> [] | Some ps \<Rightarrow> ps)
      in Func (handler func) (Some (ps @ [pattern])))"

text \<open>
  A method definition with its \<open>@route(...)\<close> lines listed from top to bottom. Python
  applies the decorator nearest to \<open>def\<close> first, the topmost one last.
\<close>

definition define_method :: "string list \<Rightarrow> 'h \<Rightarrow> 'h func" where
  "define_method routes body = foldr route routes (Func body None)"

text \<open>
  An attribute of a plugin instance is callable or not. An instance is the association
  list of its attributes (those of the instance, its class and the base classes).
\<close>

datatype 'h attr = NonCallable | Callable "'h func"

type_synonym 'h plugin_obj = "(string \<times> 'h attr) list"

definition dir :: "'h plugin_obj \<Rightarrow> string list" where
  \<comment> \<open>\<open>dir(self)\<close>: the attribute names, each once, sorted alphabetically.\<close>
  "dir self = sort (remdups (map fst self))"

definition getattr :: "'h plugin_obj \<Rightarrow> string \<Rightarrow> 'h attr option" where
  "getattr self name = map_of self name"

definition callbacks_of :: "'h attr \<Rightarrow> (string \<times> 'h) list" where
  \<comment> \<open>the body of the outer loop of \<open>get_callbacks\<close> for one attribute value\<close>
  "callbacks_of value =
     (case value of
        NonCallable \<Rightarrow> []
      | Callable f \<Rightarrow>
          (let patterns = (case patterns_attr f of None \<Rightarrow> [] | Some ps \<Rightarrow> ps)
           in map (\<lambda>pattern. (pattern, handler f)) patterns))"

definition get_callbacks :: "'h plugin_obj \<Rightarrow> (string \<times> 'h) list" where
  \<comment> \<open>Every name comes from \<open>dir(self)\<close>, so \<open>getattr\<close> finds it; see \<open>getattr_dir\<close>.\<close>
  "get_callbacks self =
     concat (map (\<lambda>name. case getattr self name of
                            None \<Rightarrow> []
                          | Some value \<Rightarrow> callbacks_of value) (dir self))"

text \<open>
  The specification's reading of the order: the methods as the class body declares them,
  each with its route annotations from top to bottom.
\<close>

definition declaration_order :: "(string \<times> string list \<times> 'h) list \<Rightarrow> (string \<times> 'h) list" where
  "declaration_order decls =
     concat (map (\<lambda>(name, routes, body). map (\<lambda>pattern. (pattern, body)) routes) decls)"

definition class_attrs :: "(string \<times> string list \<times> 'h) list \<Rightarrow> 'h plugin_obj" where
  \<comment> \<open>the attributes a class body contributes: one decorated function per \<open>def\<close>\<close>
  "class_attrs decls =
     map (\<lambda>(name, routes, body). (name, Callable (define_method routes body))) decls"

text \<open>
  \<open>TestPlugin\<close> of \<open>tests.py\<close>, handlers standing for themselves by name: what the
  base class \<open>Plugin\<close> gives an instance, and the two routed methods of the class body.
\<close>

definition Plugin_attrs :: "string plugin_obj" where
  "Plugin_attrs = [(''bot'', NonCallable), (''storage'', NonCallable),
     (''__init__'', Callable (Func ''__init__'' None)),
     (''get_callbacks'', Callable (Func ''get_callbacks'' None))]"

definition TestPlugin_decls :: "(string \<times> string list \<times> string) list" where
  "TestPlugin_decls = [(''show_a_cat'', [''show me a cat''], ''show_a_cat''),
     (''find'', [''find (?P<this>.*)''], ''find'')]"

definition TestPlugin :: "string plugin_obj" where
  "TestPlugin = Plugin_attrs @ class_attrs TestPlugin_decls"

section \<open>Bot.on_request\<close>

text \<open>
  A named group of a match is a string, or \<open>None\<close> when the group took no part in the
  match. \<open>re.match\<close> belongs to Python's library and is a parameter of the model: it
  raises (\<open>Inl\<close>), returns \<open>None\<close>, or returns a match whose \<open>groupdict()\<close> is given.
\<close>

type_synonym groupdict = "(string \<times> string pyval) list"

type_synonym re_match = "string \<Rightarrow> string \<Rightarrow> exn + groupdict option"

text \<open>
  A request carries its message, a byte string, and the \<open>respond\<close> method of its
  class, which may raise (the one of the base class always does). The world
  \<open>'w\<close> is everything handlers and \<open>respond\<close> can change: adapters' output, the
  storage, the workers.
\<close>

record 'w Request =
  message :: string
  respond :: "string \<Rightarrow> 'w \<Rightarrow> exn option \<times> 'w"

datatype 'w request = EXIT | Req "'w Request"

type_synonym ('w, 'r) callback = "'w Request \<Rightarrow> groupdict \<Rightarrow> 'w \<Rightarrow> (exn + 'r pyval) \<times> 'w"

record ('w, 'r) Bot =
  exiting :: bool
  patterns :: "(string \<times> ('w, 'r) callback) list"

definition Request_respond :: "string \<Rightarrow> 'w \<Rightarrow> exn option \<times> 'w" where
  \<comment> \<open>\<open>Request.respond\<close> of the base class\<close>
  "Request_respond text w =
     (Some (NotImplementedError ''You have to implement 'respond' method in you Request class.''), w)"

definition Request_init :: "string \<Rightarrow> 'w Request" where
  \<comment> \<open>\<open>Request(message)\<close>: an object of the base class itself\<close>
  "Request_init m = \<lparr>message = m, respond = Request_respond\<rparr>"

definition unknown_command :: "string \<Rightarrow> string" where
  \<comment> \<open>\<open>'I don\'t know command "{0}".'.format(message)\<close>\<close>
  "unknown_command m =
     ''I don'' @ [CHR 0x27] @ ''t know command '' @ [CHR 0x22] @ m @ [CHR 0x22] @ ''.''"

definition contract_error :: exn where
  "contract_error = RuntimeError
     ''Plugin {0} should not return response directly. Use request.respond(some message).''"

fun dispatch_loop ::
  "re_match \<Rightarrow> (string \<times> ('w, 'r) callback) list \<Rightarrow> 'w Request \<Rightarrow> 'w \<Rightarrow> (exn + unit) \<times> 'w"
where
  "dispatch_loop rm [] request w =
     (case respond request (unknown_command (message request)) w of
        (None, w') \<Rightarrow> (Inr (), w')
      | (Some e, w') \<Rightarrow> (Inl e, w'))"
| "dispatch_loop rm ((pattern, callback) # rest) request w =
     (case rm pattern (message request) of
        Inl e \<Rightarrow> (Inl e, w)
      | Inr None \<Rightarrow> dispatch_loop rm rest request w
      | Inr (Some groups) \<Rightarrow>
          (case callback request groups w of
             (Inl e, w') \<Rightarrow> (Inl e, w')
           | (Inr result, w') \<Rightarrow>
               (case result of
                  PyNone \<Rightarrow> (Inr (), w')
                | PyObj _ \<Rightarrow> (Inl contract_error, w'))))"

definition on_request ::
  "re_match \<Rightarrow> ('w, 'r) Bot \<Rightarrow> 'w request \<Rightarrow> 'w \<Rightarrow> (exn + unit) \<times> ('w, 'r) Bot \<times> 'w"
where
  "on_request rm self request w =
     (case request of
        EXIT \<Rightarrow> (Inr (), self\<lparr>exiting := True\<rparr>, w)
      | Req r \<Rightarrow>
          (case dispatch_loop rm (patterns self) r w of (res, w') \<Rightarrow> (res, self, w')))"

text \<open>
  For concrete runs: \<open>re.match\<close> on patterns without metacharacters, where a match is
  the pattern occurring at the start of the message and there are no groups.
\<close>

definition literal_match :: re_match where
  "literal_match pattern m = Inr (if startswith m pattern then Some [] else None)"

text \<open>
  The fixtures of \<open>tests.py\<close>: the world is the list \<open>_lines\<close> of the test adapter,
  \<open>TestRequest.respond\<close> appends to it.
\<close>

definition TestRequest_respond :: "string \<Rightarrow> string list \<Rightarrow> exn option \<times> string list" where
  "TestRequest_respond text lines = (None, lines @ [text])"

definition TestRequest :: "string \<Rightarrow> string list Request" where
  "TestRequest m = \<lparr>message = m, respond = TestRequest_respond\<rparr>"

definition responder :: "string \<Rightarrow> (string list, string) callback" where
  \<comment> \<open>a handler in the manner of \<open>TestPlugin.show_a_cat\<close>: it responds and returns \<open>None\<close>\<close>
  "responder text request groups w =
     (case respond request text w of
        (None, w') \<Rightarrow> (Inr PyNone, w')
      | (Some e, w') \<Rightarrow> (Inl e, w'))"

definition BadPlugin_do :: "(string list, string) callback" where
  \<comment> \<open>\<open>BadPlugin.do\<close> of \<open>tests.py\<close>: \<open>return 'Hello world'\<close>\<close>
  "BadPlugin_do request groups w = (Inr (PyObj ''Hello world''), w)"

text \<open>
  Bots for concrete runs: two overlapping patterns in both orders behind a pattern that
  does not match, and a bot with the bad plugin.
\<close>

definition cat_bot :: "(string list, string) Bot" where
  "cat_bot = \<lparr>exiting = False,
     patterns = [(''help'', responder ''help''),
                 (''show me'', responder ''first''),
                 (''show me a cat'', responder ''second'')]\<rparr>"

definition cat_bot_swapped :: "(string list, string) Bot" where
  "cat_bot_swapped = \<lparr>exiting = False,
     patterns = [(''help'', responder ''help''),
                 (''show me a cat'', responder ''second''),
                 (''show me'', responder ''first'')]\<rparr>"

definition bad_bot :: "(string list, string) Bot" where
  "bad_bot = \<lparr>exiting = False,
     patterns = [(''show me a cat'', responder ''the Cat''),
                 (''do'', BadPlugin_do),
                 (''do'', responder ''never'')]\<rparr>"

section \<open>ThreadedPlugin: the worker loop\<close>

text \<open>
  The hooks of a threaded plugin act on the world and may raise. \<open>on_start\<close> and
  \<open>on_stop\<close> are looked up with \<open>getattr(self, ..., None)\<close>, so they may be missing.
\<close>

record 'w ThreadedPlugin =
  do_job :: "'w \<Rightarrow> exn option \<times> 'w"
  on_start :: "('w \<Rightarrow> exn option \<times> 'w) option"
  on_stop :: "('w \<Rightarrow> exn option \<times> 'w) option"

definition ThreadedPlugin_do_job :: "'w \<Rightarrow> exn option \<times> 'w" where
  \<comment> \<open>the base class: \<open>raise NotImplemented(...)\<close> calls an object that is not callable\<close>
  "ThreadedPlugin_do_job w =
     (Some (TypeError ([CHR 0x27] @ ''NotImplementedType'' @ [CHR 0x27]
        @ '' object is not callable'')), w)"

text \<open>
  What the worker sees of the other threads: whether the event is set in the current
  world, and what has happened to the world when \<open>time.sleep(1)\<close> returns.
\<close>

record 'w surroundings =
  is_set :: "'w \<Rightarrow> bool"
  sleep :: "'w \<Rightarrow> 'w"

record 'w worker_state =
  countdown :: int
  logged :: "exn list"
  world :: 'w

definition loop_body ::
  "'w ThreadedPlugin \<Rightarrow> 'w surroundings \<Rightarrow> int \<Rightarrow> 'w worker_state
     \<Rightarrow> (exn \<times> 'w worker_state) + 'w worker_state"
where
  \<comment> \<open>one pass through the body of \<open>while not self._event.is_set()\<close>\<close>
  "loop_body self env interval s =
     (if countdown s = 0 then
        (case do_job self (world s) of
           (None, w') \<Rightarrow>
             Inr \<lparr>countdown = interval, logged = logged s, world = sleep env w'\<rparr>
         | (Some e, w') \<Rightarrow>
             if is_Exception e
             then Inr \<lparr>countdown = interval, logged = logged s @ [e], world = sleep env w'\<rparr>
             else Inl (e, s\<lparr>world := w'\<rparr>))
      else Inr \<lparr>countdown = countdown s - 1, logged = logged s, world = sleep env (world s)\<rparr>)"

text \<open>
  The loop runs until the event is seen set, which may be never: the first argument
  bounds the number of passes, and \<open>None\<close> says that the bound was reached.
\<close>

fun worker_loop ::
  "nat \<Rightarrow> 'w ThreadedPlugin \<Rightarrow> 'w surroundings \<Rightarrow> int \<Rightarrow> 'w worker_state
     \<Rightarrow> ((exn \<times> 'w worker_state) + 'w worker_state) option"
where
  "worker_loop 0 self env interval s = None"
| "worker_loop (Suc n) self env interval s =
     (if is_set env (world s) then Some (Inr s)
      else (case loop_body self env interval s of
              Inl x \<Rightarrow> Some (Inl x)
            | Inr s' \<Rightarrow> worker_loop n self env interval s'))"

definition run_hook :: "('w \<Rightarrow> exn option \<times> 'w) option \<Rightarrow> 'w \<Rightarrow> exn option \<times> 'w" where
  "run_hook hook w = (case hook of None \<Rightarrow> (None, w) | Some f \<Rightarrow> f w)"

definition worker ::
  "nat \<Rightarrow> 'w ThreadedPlugin \<Rightarrow> 'w surroundings \<Rightarrow> int \<Rightarrow> 'w
     \<Rightarrow> ((exn \<times> 'w worker_state) + 'w worker_state) option"
where
  \<comment> \<open>\<open>ThreadedPlugin._worker\<close>\<close>
  "worker fuel self env interval w =
     (case run_hook (on_start self) w of
        (Some e, w') \<Rightarrow> Some (Inl (e, \<lparr>countdown = 0, logged = [], world = w'\<rparr>))
      | (None, w') \<Rightarrow>
          (case worker_loop fuel self env interval \<lparr>countdown = 0, logged = [], world = w'\<rparr> of
             None \<Rightarrow> None
           | Some (Inl x) \<Rightarrow> Some (Inl x)
           | Some (Inr s) \<Rightarrow>
               (case run_hook (on_stop self) (world s) of
                  (Some e, w'') \<Rightarrow> Some (Inl (e, s\<lparr>world := w''\<rparr>))
                | (None, w'') \<Rightarrow> Some (Inr (s\<lparr>world := w''\<rparr>)))))"

section \<open>ThreadedPlugin: starting and stopping the worker\<close>

text \<open>
  The thread and event objects a plugin instance has created, by identity (their index),
  and the two attributes \<open>_thread\<close> and \<open>_event\<close>, which are missing before the first
  start. A thread is alive from \<open>start()\<close> until its \<open>_worker\<close> call returns or raises.
\<close>

record thread =
  alive :: bool
  daemon :: bool
  interval_kwarg :: int

record plugin_threads =
  threads :: "thread list"
  events :: "bool list"
  thread_attr :: "nat option"
  event_attr :: "nat option"

definition is_alive :: "plugin_threads \<Rightarrow> nat \<Rightarrow> bool" where
  "is_alive s t = (t < length (threads s) \<and> alive (threads s ! t))"

definition spawn :: "int \<Rightarrow> plugin_threads \<Rightarrow> plugin_threads" where
  \<comment> \<open>the four statements of \<open>start_worker\<close> after the early return\<close>
  "spawn interval s =
     \<lparr>threads = threads s @ [\<lparr>alive = True, daemon = True, interval_kwarg = interval\<rparr>],
      events = events s @ [False],
      thread_attr = Some (length (threads s)),
      event_attr = Some (length (events s))\<rparr>"

definition worker_running :: "plugin_threads \<Rightarrow> bool" where
  \<comment> \<open>\<open>thread is not None and thread.is_alive()\<close>\<close>
  "worker_running s = (case thread_attr s of None \<Rightarrow> False | Some t \<Rightarrow> is_alive s t)"

definition start_worker :: "int \<Rightarrow> plugin_threads \<Rightarrow> plugin_threads" where
  "start_worker interval s = (if worker_running s then s else spawn interval s)"

definition stop_worker :: "plugin_threads \<Rightarrow> plugin_threads" where
  "stop_worker s =
     (case event_attr s of
        None \<Rightarrow> s
      | Some e \<Rightarrow> s\<lparr>events := (events s)[e := True]\<rparr>)"

definition thread_exit :: "nat \<Rightarrow> plugin_threads \<Rightarrow> plugin_threads" where
  \<comment> \<open>the worker of thread \<open>t\<close> returns or raises\<close>
  "thread_exit t s = s\<lparr>threads := (threads s)[t := (threads s ! t)\<lparr>alive := False\<rparr>]\<rparr>"

definition new_plugin :: plugin_threads where
  "new_plugin = \<lparr>threads = [], events = [], thread_attr = None, event_attr = None\<rparr>"

definition active_loops :: "plugin_threads \<Rightarrow> nat" where
  "active_loops s = length (filter alive (threads s))"

definition recorded :: "plugin_threads \<Rightarrow> bool" where
  \<comment> \<open>every live thread of the plugin is the one \<open>_thread\<close> holds\<close>
  "recorded s = (\<forall>t < length (threads s). alive (threads s ! t) \<longrightarrow> thread_attr s = Some t)"

text \<open>The states a plugin instance can be in: calls of the two methods, and threads ending.\<close>

inductive reachable :: "plugin_threads \<Rightarrow> bool" where
  init: "reachable new_plugin"
| start: "reachable s \<Longrightarrow> reachable (start_worker interval s)"
| stop: "reachable s \<Longrightarrow> reachable (stop_worker s)"
| exit: "reachable s \<Longrightarrow> t < length (threads s) \<Longrightarrow> reachable (thread_exit t s)"

text \<open>
  Plugins and surroundings for concrete runs. The world counts the calls of \<open>do_job\<close>;
  the event is set once two calls have been made, and nothing else happens during a
  sleep.
\<close>

definition failing_plugin :: "nat ThreadedPlugin" where
  "failing_plugin =
     \<lparr>do_job = (\<lambda>calls. (Some (OtherException ''boom''), Suc calls)),
      on_start = None, on_stop = None\<rparr>"

definition exiting_plugin :: "nat ThreadedPlugin" where
  \<comment> \<open>a \<open>do_job\<close> that calls \<open>sys.exit()\<close>\<close>
  "exiting_plugin =
     \<lparr>do_job = (\<lambda>calls. (Some SystemExit, Suc calls)), on_start = None, on_stop = None\<rparr>"

definition stop_after_two :: "nat surroundings" where
  "stop_after_two = \<lparr>is_set = (\<lambda>calls. 2 \<le> calls), sleep = id\<rparr>"

section \<open>Properties of the storage\<close>

lemmas storage_defs = Storage_keys_def Storage_get_def Storage_getitem_def Storage_setitem_def
  with_prefix_def shelf_setitem_def shelf_keys_def shelf_get_def shelf_getitem_def

lemmas fixture_defs = root_def empty_heap_def first_view_def second_view_def nesting_heap_def

lemma startswith_iff: "startswith x p \<longleftrightarrow> (\<exists>k. x = p @ k)"
  unfolding startswith_def
  by (metis append_eq_conv_conj append_take_drop_id)

lemma startswith_append_cases:
  assumes "startswith (p1 @ k) p2"
  shows "startswith p1 p2 \<or> startswith p2 p1"
proof (cases "length p2 \<le> length p1")
  case True
  with assms show ?thesis by (simp add: startswith_def)
next
  case False
  with assms have "p2 = p1 @ take (length p2 - length p1) k"
    by (simp add: startswith_def)
  then have "take (length p1) p2 = p1"
    by (metis append_eq_conv_conj)
  then show ?thesis by (simp add: startswith_def)
qed

lemma keys_shelf_setitem:
  "shelf_keys (shelf_setitem s k v) =
     (if k \<in> set (shelf_keys s) then shelf_keys s else shelf_keys s @ [k])"
  by (simp add: shelf_keys_def shelf_setitem_def update_keys)

lemma map_of_shelf_setitem:
  "map_of (shelf_setitem s k v) = (map_of s)(k \<mapsto> v)"
  by (simp add: shelf_setitem_def update_conv')

text \<open>
  C2, as the code has it. \<open>keys()\<close> of a view with prefix \<open>P\<close> returns the physical
  keys of the shelf that start with \<open>P\<close>, with the prefix still on them: the set of
  the strings \<open>P + K\<close> for the logical keys \<open>K\<close> of the namespace.
\<close>

theorem keys_are_physical:
  "set (Storage_keys self h) = (\<lambda>K. prefix self @ K) ` logical_keys self h"
  by (auto simp: Storage_keys_def logical_keys_def startswith_iff)

text \<open>
  C2 as the specification states it (the prefix stripped) fails on the objects of
  \<open>test_storage_nesting\<close>: the view \<open>first:\<close> lists \<open>first:blah\<close>, as the test
  expects, while the only logical key of the namespace is \<open>blah\<close>.
\<close>

theorem keys_not_stripped:
  "Storage_keys first_view nesting_heap = [''first:blah'']
   \<and> set (Storage_keys first_view nesting_heap) \<noteq> logical_keys first_view nesting_heap"
proof -
  have k: "Storage_keys first_view nesting_heap = [''first:blah'']"
    by (simp add: storage_defs fixture_defs startswith_def)
  have "''first:blah'' \<notin> logical_keys first_view nesting_heap"
    by (simp add: logical_keys_def storage_defs fixture_defs)
  with k show ?thesis by auto
qed

text \<open>
  C3, as the code has it. \<open>with_prefix(Q)\<close> returns a view over the same shelf whose
  prefix is \<open>Q\<close> itself: the prefix of the view it is called on is dropped, so of two
  calls in a row the second one decides, and a write through the new view goes to the
  key \<open>Q + name\<close> of the shared shelf. The result is the current prefix with \<open>Q\<close>
  appended exactly when the current prefix is empty.
\<close>

theorem with_prefix_replaces:
  "shelve (with_prefix self q) = shelve self
   \<and> prefix (with_prefix self q) = q
   \<and> with_prefix (with_prefix self p) q = with_prefix self q
   \<and> Storage_setitem (with_prefix self q) name v h
       = h(shelve self := shelf_setitem (h (shelve self)) (q @ name) v)
   \<and> (with_prefix self q = with_prefix_appended self q) = (prefix self = [])"
  by (auto simp: with_prefix_def with_prefix_appended_def Storage_setitem_def)

text \<open>
  C3 as the specification states it fails for a view that already has a prefix: from the
  view \<open>first:\<close>, \<open>with_prefix('second:')\<close> has the prefix \<open>second:\<close>, not
  \<open>first:second:\<close>.
\<close>

theorem with_prefix_not_appended:
  "prefix (with_prefix first_view ''second:'') = ''second:''
   \<and> prefix (with_prefix_appended first_view ''second:'') = ''first:second:''
   \<and> with_prefix first_view ''second:'' \<noteq> with_prefix_appended first_view ''second:''"
  by (simp add: with_prefix_def with_prefix_appended_def fixture_defs)

text \<open>
  C4, as the code has it. Two views \<open>v1\<close> and \<open>v2\<close> share one shelf, and \<open>v1\<close>
  writes \<open>x\<close> under the key \<open>k\<close>. Then \<open>keys()\<close> of \<open>v2\<close> lists the written
  physical key exactly when it starts with the prefix of \<open>v2\<close>. When the prefixes
  differ, \<open>get(k)\<close> through \<open>v2\<close> is unchanged. When neither prefix is an initial
  segment of the other, \<open>keys()\<close> of \<open>v2\<close> and every \<open>get\<close> through \<open>v2\<close> are
  unchanged. A second view with the prefix of \<open>v1\<close> reads \<open>x\<close> under \<open>k\<close> and
  lists the key.
\<close>

theorem namespace_isolation:
  assumes same: "shelve v1 = shelve v2"
  shows "((prefix v1 @ k \<in> set (Storage_keys v2 (Storage_setitem v1 k x h)))
            = startswith (prefix v1 @ k) (prefix v2))
    \<and> (prefix v1 \<noteq> prefix v2 \<longrightarrow>
          Storage_get v2 k (Storage_setitem v1 k x h) = Storage_get v2 k h)
    \<and> (\<not> startswith (prefix v1) (prefix v2) \<and> \<not> startswith (prefix v2) (prefix v1) \<longrightarrow>
          Storage_keys v2 (Storage_setitem v1 k x h) = Storage_keys v2 h
          \<and> (\<forall>name. Storage_get v2 name (Storage_setitem v1 k x h) = Storage_get v2 name h))
    \<and> Storage_get (with_prefix v2 (prefix v1)) k (Storage_setitem v1 k x h) = x
    \<and> Storage_getitem (with_prefix v2 (prefix v1)) k (Storage_setitem v1 k x h) = Inr x
    \<and> prefix v1 @ k \<in> set (Storage_keys (with_prefix v2 (prefix v1)) (Storage_setitem v1 k x h))"
proof -
  let ?h' = "Storage_setitem v1 k x h"
  have sh: "?h' (shelve v2) = shelf_setitem (h (shelve v2)) (prefix v1 @ k) x"
    using same by (simp add: Storage_setitem_def)
  have c1: "(prefix v1 @ k \<in> set (Storage_keys v2 ?h')) = startswith (prefix v1 @ k) (prefix v2)"
    by (auto simp: Storage_keys_def sh keys_shelf_setitem)
  have c2: "Storage_get v2 k ?h' = Storage_get v2 k h" if "prefix v1 \<noteq> prefix v2"
    using that by (simp add: Storage_get_def sh shelf_get_def map_of_shelf_setitem)
  have c3: "Storage_keys v2 ?h' = Storage_keys v2 h
      \<and> (\<forall>name. Storage_get v2 name ?h' = Storage_get v2 name h)"
    if inc: "\<not> startswith (prefix v1) (prefix v2)" "\<not> startswith (prefix v2) (prefix v1)"
  proof -
    from inc have ns: "\<not> startswith (prefix v1 @ k) (prefix v2)"
      using startswith_append_cases by blast
    have keys: "Storage_keys v2 ?h' = Storage_keys v2 h"
      using ns by (simp add: Storage_keys_def sh keys_shelf_setitem)
    have "Storage_get v2 name ?h' = Storage_get v2 name h" for name
    proof -
      have "prefix v2 @ name \<noteq> prefix v1 @ k"
        using ns by (metis startswith_iff)
      then show ?thesis
        by (simp add: Storage_get_def sh shelf_get_def map_of_shelf_setitem)
    qed
    with keys show ?thesis by simp
  qed
  have c5: "Storage_get (with_prefix v2 (prefix v1)) k ?h' = x"
    by (simp add: Storage_get_def with_prefix_def sh shelf_get_def map_of_shelf_setitem)
  have c6: "Storage_getitem (with_prefix v2 (prefix v1)) k ?h' = Inr x"
    by (simp add: Storage_getitem_def with_prefix_def sh shelf_getitem_def map_of_shelf_setitem)
  have c7: "prefix v1 @ k \<in> set (Storage_keys (with_prefix v2 (prefix v1)) ?h')"
    by (auto simp: Storage_keys_def with_prefix_def sh keys_shelf_setitem startswith_def)
  from c1 c2 c3 c5 c6 c7 show ?thesis by blast
qed

theorem namespace_isolation_witness:
  "Storage_keys second_view (Storage_setitem first_view ''blah'' (PyObj ''minor'') empty_heap) = []
   \<and> Storage_get second_view ''blah''
        (Storage_setitem first_view ''blah'' (PyObj ''minor'') empty_heap) = PyNone
   \<and> Storage_get (with_prefix second_view ''first:'') ''blah''
        (Storage_setitem first_view ''blah'' (PyObj ''minor'') empty_heap) = PyObj ''minor''
   \<and> ''first:blah'' \<in> set (Storage_keys (with_prefix second_view ''first:'')
        (Storage_setitem first_view ''blah'' (PyObj ''minor'') empty_heap))"
  using namespace_isolation [of first_view second_view "''blah''" "PyObj ''minor''" empty_heap]
  by (simp add: fixture_defs with_prefix_def startswith_def Storage_keys_def Storage_get_def
      shelf_keys_def shelf_get_def)

text \<open>
  C4 as the specification states it (any two distinct prefixes) fails when one prefix is
  an initial segment of the other: the storage of the bot has the empty prefix, and a key
  written through the view \<open>first:\<close> shows in its \<open>keys()\<close> and is read by its
  \<open>get\<close>, as \<open>test_storage_nesting\<close> expects.
\<close>

theorem root_view_sees_all:
  "prefix root \<noteq> prefix first_view
   \<and> Storage_keys root (Storage_setitem first_view ''blah'' (PyObj ''minor'') empty_heap)
        = [''first:blah'']
   \<and> Storage_get root ''first:blah''
        (Storage_setitem first_view ''blah'' (PyObj ''minor'') empty_heap) = PyObj ''minor''"
  by (simp add: storage_defs fixture_defs startswith_def)

text \<open>
  C8, as the code has it. For a key that is absent, the subscript read
  \<open>storage[name]\<close> raises \<open>KeyError\<close>, and that differs from what it returns for a
  key under which \<open>None\<close> is stored. The read \<open>get(name)\<close> returns \<open>None\<close> in both
  cases.
\<close>

theorem absent_key_read:
  assumes "prefix self @ name \<notin> set (shelf_keys (h (shelve self)))"
  shows "Storage_getitem self name h = Inl (KeyError (prefix self @ name))
    \<and> Storage_getitem self name (Storage_setitem self name PyNone h) = Inr PyNone
    \<and> Storage_getitem self name h \<noteq> Storage_getitem self name (Storage_setitem self name PyNone h)
    \<and> Storage_get self name h = PyNone
    \<and> Storage_get self name (Storage_setitem self name PyNone h) = PyNone"
proof -
  from assms have "map_of (h (shelve self)) (prefix self @ name) = None"
    by (simp add: shelf_keys_def map_of_eq_None_iff)
  then show ?thesis
    by (simp add: Storage_getitem_def Storage_get_def Storage_setitem_def shelf_getitem_def
        shelf_get_def map_of_shelf_setitem)
qed

theorem absent_key_read_witness:
  "Storage_getitem second_view ''blah'' nesting_heap = Inl (KeyError ''second:blah'')
   \<and> Storage_getitem second_view ''blah''
        (Storage_setitem second_view ''blah'' PyNone nesting_heap) = Inr PyNone
   \<and> Storage_get second_view ''blah'' nesting_heap = PyNone"
  using absent_key_read [of second_view "''blah''" nesting_heap]
  by (simp add: fixture_defs with_prefix_def Storage_setitem_def shelf_setitem_def shelf_keys_def)

text \<open>
  C8 as the specification states it (every read of an absent key fails with NotFound)
  fails for \<open>get\<close>: on the empty shelf it returns \<open>None\<close>, the value it returns after
  \<open>None\<close> has been stored under the key.
\<close>

theorem get_conflates_absent_and_None:
  "Storage_get root ''blah'' empty_heap = PyNone
   \<and> Storage_get root ''blah'' (Storage_setitem root ''blah'' PyNone empty_heap) = PyNone
   \<and> Storage_get root ''blah'' empty_heap
       = Storage_get root ''blah'' (Storage_setitem root ''blah'' PyNone empty_heap)"
  by (simp add: storage_defs fixture_defs)

section \<open>Properties of the dispatch\<close>

lemma dispatch_loop_skip:
  "\<forall>(p, cb) \<in> set pre. rm p (message r) = Inr None \<Longrightarrow>
   dispatch_loop rm (pre @ rest) r w = dispatch_loop rm rest r w"
  by (induction pre) auto

text \<open>
  C1. For a request that is not \<open>EXIT\<close>, let the binding \<open>(pattern, callback)\<close> be the
  first one in registration order whose pattern \<open>re.match\<close> matches at the start of the
  message, every binding before it not matching. Then the outcome of \<open>on_request\<close> and
  the world it leaves are those of the one call of \<open>callback\<close> with the request and the
  named groups of the match: no binding registered before or after it has any effect, so
  of two overlapping bindings the first-registered one runs and the second does not.
\<close>

theorem first_match_wins:
  assumes "patterns self = pre @ (pattern, callback) # post"
    and "\<forall>(p, cb) \<in> set pre. rm p (message r) = Inr None"
    and "rm pattern (message r) = Inr (Some groups)"
  shows "on_request rm self (Req r) w =
     (case callback r groups w of
        (Inl e, w') \<Rightarrow> (Inl e, self, w')
      | (Inr PyNone, w') \<Rightarrow> (Inr (), self, w')
      | (Inr (PyObj v), w') \<Rightarrow> (Inl contract_error, self, w'))"
  using assms
  by (simp add: on_request_def dispatch_loop_skip split: prod.splits sum.splits pyval.splits)

theorem first_match_wins_witness:
  "on_request literal_match cat_bot (Req (TestRequest ''show me a cat, please'')) []
     = (Inr (), cat_bot, [''first''])
   \<and> on_request literal_match cat_bot_swapped (Req (TestRequest ''show me a cat, please'')) []
     = (Inr (), cat_bot_swapped, [''second''])"
  using first_match_wins [of cat_bot "[(''help'', responder ''help'')]" "''show me''"
      "responder ''first''" "[(''show me a cat'', responder ''second'')]" literal_match
      "TestRequest ''show me a cat, please''" "[]" "[]"]
    first_match_wins [of cat_bot_swapped "[(''help'', responder ''help'')]" "''show me a cat''"
      "responder ''second''" "[(''show me'', responder ''first'')]" literal_match
      "TestRequest ''show me a cat, please''" "[]" "[]"]
  by (simp add: cat_bot_def cat_bot_swapped_def literal_match_def startswith_def TestRequest_def
      responder_def TestRequest_respond_def)



lemma EXIT_sets_exiting:
  "on_request rm self EXIT w = (Inr (), self\<lparr>exiting := True\<rparr>, w)"
  by (simp add: on_request_def)

text \<open>
  C7, as the code has it. When \<open>re.match\<close> returns no match for every registered
  pattern on the message \<open>M\<close>, \<open>on_request\<close> calls no handler and makes one call
  of the request's \<open>respond\<close>, with the text \<open>I don't know command "M".\<close> built
  from that very message; its outcome and the world it leaves are those of that call. So
  \<open>on_request\<close> raises nothing of its own: for a request whose \<open>respond\<close> emits
  the text and returns, it returns normally and the world holds that one emission; for a
  request whose \<open>respond\<close> raises, the error reaches the caller.
\<close>

theorem unknown_command_response:
  assumes "\<forall>(p, cb) \<in> set (patterns self). rm p (message r) = Inr None"
  shows "on_request rm self (Req r) w =
       (case respond r (''I don'' @ [CHR 0x27] @ ''t know command '' @ [CHR 0x22]
                          @ message r @ [CHR 0x22] @ ''.'') w of
          (None, w') \<Rightarrow> (Inr (), self, w')
        | (Some e, w') \<Rightarrow> (Inl e, self, w'))
    \<and> (respond r = (\<lambda>text w. (None, emit text w)) \<longrightarrow>
          on_request rm self (Req r) w =
            (Inr (), self,
             emit (''I don'' @ [CHR 0x27] @ ''t know command '' @ [CHR 0x22]
                     @ message r @ [CHR 0x22] @ ''.'') w))
    \<and> (respond r = (\<lambda>text w. (Some e, w)) \<longrightarrow>
          on_request rm self (Req r) w = (Inl e, self, w))"
proof -
  have "dispatch_loop rm (patterns self) r w = dispatch_loop rm [] r w"
    using assms dispatch_loop_skip [of "patterns self" rm r "[]" w] by simp
  then show ?thesis
    by (simp add: on_request_def unknown_command_def split: prod.splits option.splits)
qed

theorem unknown_command_response_witness:
  "on_request literal_match bad_bot (Req (TestRequest ''some command'')) []
     = (Inr (), bad_bot,
        [''I don'' @ [CHR 0x27] @ ''t know command '' @ [CHR 0x22] @ ''some command''
           @ [CHR 0x22] @ ''.''])
   \<and> on_request literal_match bad_bot (Req (TestRequest ''unknown thing'')) [''the Cat'']
     = (Inr (), bad_bot,
        [''the Cat'',
         ''I don'' @ [CHR 0x27] @ ''t know command '' @ [CHR 0x22] @ ''unknown thing''
           @ [CHR 0x22] @ ''.''])"
  using unknown_command_response [of bad_bot literal_match "TestRequest ''some command''" "[]"]
    unknown_command_response [of bad_bot literal_match "TestRequest ''unknown thing''"
      "[''the Cat'']"]
  by (simp add: bad_bot_def literal_match_def startswith_def TestRequest_def
      TestRequest_respond_def)

text \<open>
  C7 as the specification states it (no error, exactly one response) fails for a request
  of the base class \<open>Request\<close>, whose \<open>respond\<close> raises \<open>NotImplementedError\<close>:
  no pattern of the bot matches the message, \<open>on_request\<close> raises that error, and no
  response has been produced.
\<close>

theorem base_request_raises:
  "list_all (\<lambda>(p, cb). literal_match p ''some command'' = Inr None) (patterns bad_bot)
   \<and> on_request literal_match bad_bot (Req (Request_init ''some command'')) []
     = (Inl (NotImplementedError
               ''You have to implement 'respond' method in you Request class.''),
        bad_bot, [])"
  by (simp add: on_request_def bad_bot_def literal_match_def startswith_def Request_init_def
      Request_respond_def)

section \<open>Properties of the capability registry\<close>

lemma patterns_define_method:
  "patterns_attr (define_method routes body) = (if routes = [] then None else Some (rev routes))
   \<and> handler (define_method routes body) = body"
  by (induction routes) (auto simp: define_method_def route_def)

lemma callbacks_of_define_method:
  "callbacks_of (Callable (define_method routes body)) = map (\<lambda>pattern. (pattern, body)) (rev routes)"
  by (simp add: callbacks_of_def patterns_define_method)

lemma distinct_map_sort_key:
  "distinct (map f (sort_key f xs)) = distinct (map f xs)"
  by (induction xs) (auto simp: distinct_insort_key)

lemma map_fst_sort_key:
  assumes "distinct (map fst self)"
  shows "map fst (sort_key fst self) = sort (map fst self)"
proof (rule sorted_distinct_set_unique)
  show "sorted (map fst (sort_key fst self))" by simp
  show "distinct (map fst (sort_key fst self))" using assms by (simp add: distinct_map_sort_key)
  show "sorted (sort (map fst self))" using sorted_sort_key [of "\<lambda>x. x" "map fst self"] by simp
  show "distinct (sort (map fst self))" using assms by simp
  show "set (map fst (sort_key fst self)) = set (sort (map fst self))" by simp
qed

lemma getattr_dir: "name \<in> set (dir self) \<Longrightarrow> getattr self name \<noteq> None"
  by (auto simp: dir_def getattr_def map_of_eq_None_iff)

lemma get_callbacks_sorted:
  assumes d: "distinct (map fst self)"
  shows "get_callbacks self = concat (map (\<lambda>(name, value). callbacks_of value) (sort_key fst self))"
proof -
  have "get_callbacks self =
      concat (map (\<lambda>name. case map_of self name of None \<Rightarrow> [] | Some value \<Rightarrow> callbacks_of value)
        (map fst (sort_key fst self)))"
    using d by (simp add: get_callbacks_def dir_def getattr_def map_fst_sort_key distinct_remdups_id)
  also have "\<dots> = concat (map (\<lambda>(name, value). callbacks_of value) (sort_key fst self))"
  proof -
    have pointwise: "(case map_of self (fst x) of None \<Rightarrow> [] | Some value \<Rightarrow> callbacks_of value)
        = (\<lambda>(name, value). callbacks_of value) x" if "x \<in> set (sort_key fst self)" for x
    proof -
      obtain n v where x: "x = (n, v)" by (cases x)
      with that have "(n, v) \<in> set self" by simp
      with d have "map_of self n = Some v" by simp
      with x show ?thesis by simp
    qed
    have eq: "map (\<lambda>name. case map_of self name of None \<Rightarrow> [] | Some value \<Rightarrow> callbacks_of value)
          (map fst (sort_key fst self))
        = map (\<lambda>(name, value). callbacks_of value) (sort_key fst self)"
      unfolding map_map by (rule map_cong [OF refl]) (simp add: pointwise)
    show ?thesis by (simp only: eq)
  qed
  finally show ?thesis .
qed

lemma insort_key_map:
  "insort_key f (g x) (map g ys) = map g (insort_key (\<lambda>y. f (g y)) x ys)"
  by (induction ys) auto

lemma sort_key_map: "sort_key f (map g xs) = map g (sort_key (\<lambda>y. f (g y)) xs)"
  by (induction xs) (auto simp: insort_key_map)

lemma concat_map_filter:
  assumes "\<And>x. x \<in> set xs \<Longrightarrow> \<not> P x \<Longrightarrow> F x = []"
  shows "concat (map F xs) = concat (map F (filter P xs))"
  using assms by (induction xs) auto


lemma filter_own_attrs:
  assumes "distinct (map fst (others @ own))"
  shows "filter (\<lambda>x. x \<in> set own) (others @ own) = own"
proof -
  from assms have "\<forall>x \<in> set others. x \<notin> set own"
    by (auto simp: rev_image_eqI)
  then have "filter (\<lambda>x. x \<in> set own) others = []"
    by (simp add: filter_empty_conv)
  then show ?thesis by simp
qed

text \<open>
  C5, as the code has it. A plugin object has the attributes \<open>others\<close>, none of which
  carries route patterns, and the methods of its class body \<open>decls\<close>, all names being
  different. Then \<open>get_callbacks\<close> yields the pairs method by method in ascending
  alphabetical order of the method names (the order of \<open>dir\<close>), and for each method its
  patterns in the order in which the decorators were applied: from the \<open>@route\<close> line
  nearest to \<open>def\<close> up to the topmost one.
\<close>

theorem get_callbacks_order:
  assumes d: "distinct (map fst (others @ class_attrs decls))"
    and unrouted: "\<forall>(name, value) \<in> set others. callbacks_of value = []"
  shows "get_callbacks (others @ class_attrs decls) =
     concat (map (\<lambda>(name, routes, body). map (\<lambda>pattern. (pattern, body)) (rev routes))
       (sort_key fst decls))"
proof -
  let ?F = "\<lambda>(name :: string, value :: 'a attr). callbacks_of value"
  let ?G = "\<lambda>(name :: string, routes, body :: 'a). (name, Callable (define_method routes body))"
  let ?own = "class_attrs decls"
  have "get_callbacks (others @ ?own) = concat (map ?F (sort_key fst (others @ ?own)))"
    using d by (rule get_callbacks_sorted)
  also have "\<dots> = concat (map ?F (filter (\<lambda>x. x \<in> set ?own) (sort_key fst (others @ ?own))))"
    using unrouted by (intro concat_map_filter) auto
  also have "\<dots> = concat (map ?F (sort_key fst ?own))"
    using d by (simp only: filter_sort filter_own_attrs)
  also have "sort_key fst ?own = map ?G (sort_key fst decls)"
  proof -
    have "(\<lambda>y. fst (?G y)) = fst" by (auto simp: fun_eq_iff)
    then show ?thesis
      unfolding class_attrs_def sort_key_map by simp
  qed
  also have "concat (map ?F (map ?G (sort_key fst decls))) =
      concat (map (\<lambda>(name, routes, body). map (\<lambda>pattern. (pattern, body)) (rev routes))
        (sort_key fst decls))"
    by (simp add: comp_def case_prod_unfold callbacks_of_define_method)
  finally show ?thesis .
qed

theorem get_callbacks_order_witness:
  "get_callbacks TestPlugin = [(''find (?P<this>.*)'', ''find''), (''show me a cat'', ''show_a_cat'')]"
proof -
  have d: "distinct (map fst (Plugin_attrs @ class_attrs TestPlugin_decls))"
    by (simp add: Plugin_attrs_def class_attrs_def TestPlugin_decls_def)
  have u: "\<forall>(name, value) \<in> set Plugin_attrs. callbacks_of value = []"
    by (simp add: Plugin_attrs_def callbacks_of_def)
  have "sort_key fst TestPlugin_decls
      = [(''find'', [''find (?P<this>.*)''], ''find''), (''show_a_cat'', [''show me a cat''], ''show_a_cat'')]"
    by code_simp
  with get_callbacks_order [OF d u] show ?thesis
    by (simp add: TestPlugin_def)
qed

text \<open>
  C5 as the specification states it (declaration order) fails on \<open>TestPlugin\<close>: the
  class declares \<open>show_a_cat\<close> before \<open>find\<close>, and \<open>get_callbacks\<close> yields the
  binding of \<open>find\<close> first.
\<close>

theorem not_declaration_order:
  "get_callbacks TestPlugin = [(''find (?P<this>.*)'', ''find''), (''show me a cat'', ''show_a_cat'')]
   \<and> declaration_order TestPlugin_decls
       = [(''show me a cat'', ''show_a_cat''), (''find (?P<this>.*)'', ''find'')]
   \<and> get_callbacks TestPlugin \<noteq> declaration_order TestPlugin_decls"
proof -
  have a: "get_callbacks TestPlugin
      = [(''find (?P<this>.*)'', ''find''), (''show me a cat'', ''show_a_cat'')]"
    by code_simp
  have b: "declaration_order TestPlugin_decls
      = [(''show me a cat'', ''show_a_cat''), (''find (?P<this>.*)'', ''find'')]"
    by (simp add: declaration_order_def TestPlugin_decls_def)
  from a b show ?thesis by simp
qed


section \<open>Properties of the worker loop\<close>

lemma countdown_phase:
  assumes "countdown s = int k"
    and "\<forall>j<k. \<not> is_set env ((sleep env ^^ j) (world s))"
  shows "worker_loop (k + n) self env interval s =
     worker_loop n self env interval
       \<lparr>countdown = 0, logged = logged s, world = (sleep env ^^ k) (world s)\<rparr>"
  using assms
proof (induction k arbitrary: s)
  case 0
  then show ?case by (cases s) simp
next
  case (Suc k)
  let ?s1 = "\<lparr>countdown = int k, logged = logged s, world = sleep env (world s)\<rparr>"
  from Suc.prems have unset: "\<not> is_set env (world s)" by auto
  from Suc.prems have body: "loop_body self env interval s = Inr ?s1"
    by (simp add: loop_body_def)
  have quiet: "\<forall>j<k. \<not> is_set env ((sleep env ^^ j) (world ?s1))"
  proof (intro allI impI)
    fix j assume "j < k"
    with Suc.prems have "\<not> is_set env ((sleep env ^^ Suc j) (world s))" by auto
    then show "\<not> is_set env ((sleep env ^^ j) (world ?s1))"
      by (simp add: funpow_swap1)
  qed
  have "worker_loop (Suc k + n) self env interval s = worker_loop (k + n) self env interval ?s1"
    using unset body by simp
  also have "\<dots> = worker_loop n self env interval
      \<lparr>countdown = 0, logged = logged ?s1, world = (sleep env ^^ k) (world ?s1)\<rparr>"
    using quiet by (intro Suc.IH) simp_all
  finally show ?case by (simp add: funpow_swap1)
qed

text \<open>
  C9, as the code has it. The loop is at a pass with \<open>countdown = 0\<close>, the event is
  not set, and \<open>do_job\<close> raises an exception \<open>e\<close> of a class deriving from
  \<open>Exception\<close>. Then the pass ends normally: \<open>e\<close> is logged, and the state is the
  one a \<open>do_job\<close> that returned would have left (the countdown at the interval, the
  world after the sleep) but for the log entry. For an interval of \<open>k\<close> seconds, while
  the event stays unset the loop sleeps through \<open>k\<close> more passes and calls \<open>do_job\<close>
  again in the pass after them, on the world as it is then.
\<close>

theorem job_failure_keeps_loop:
  assumes zero: "countdown s = 0"
    and unset: "\<not> is_set env (world s)"
    and fails: "do_job self (world s) = (Some e, w1)"
    and caught: "is_Exception e"
    and quiet: "\<forall>j\<le>k. \<not> is_set env ((sleep env ^^ j) (sleep env w1))"
  shows "loop_body self env interval s =
       Inr \<lparr>countdown = interval, logged = logged s @ [e], world = sleep env w1\<rparr>
    \<and> loop_body (self\<lparr>do_job := (\<lambda>w. (None, w1))\<rparr>) env interval s =
       Inr \<lparr>countdown = interval, logged = logged s, world = sleep env w1\<rparr>
    \<and> worker_loop (Suc (k + Suc n)) self env (int k) s =
       (case do_job self ((sleep env ^^ Suc k) w1) of
          (None, w3) \<Rightarrow>
            worker_loop n self env (int k)
              \<lparr>countdown = int k, logged = logged s @ [e], world = sleep env w3\<rparr>
        | (Some e', w3) \<Rightarrow>
            if is_Exception e'
            then worker_loop n self env (int k)
              \<lparr>countdown = int k, logged = logged s @ [e, e'], world = sleep env w3\<rparr>
            else Some (Inl (e', \<lparr>countdown = 0, logged = logged s @ [e], world = w3\<rparr>)))"
proof -
  let ?s1 = "\<lparr>countdown = int k, logged = logged s @ [e], world = sleep env w1\<rparr>"
  let ?s2 = "\<lparr>countdown = 0, logged = logged s @ [e], world = (sleep env ^^ Suc k) w1\<rparr>"
  have b1: "loop_body self env interval s =
      Inr \<lparr>countdown = interval, logged = logged s @ [e], world = sleep env w1\<rparr>" for interval
    using zero fails caught by (simp add: loop_body_def)
  have b2: "loop_body (self\<lparr>do_job := (\<lambda>w. (None, w1))\<rparr>) env interval s =
      Inr \<lparr>countdown = interval, logged = logged s, world = sleep env w1\<rparr>"
    using zero by (simp add: loop_body_def)
  have "worker_loop (Suc (k + Suc n)) self env (int k) s
      = worker_loop (k + Suc n) self env (int k) ?s1"
    using unset b1 [of "int k"] by simp
  also have "\<dots> = worker_loop (Suc n) self env (int k) ?s2"
    using quiet countdown_phase [of ?s1 k env "Suc n" self "int k"]
    by (simp add: funpow_swap1)
  also have "\<dots> =
       (case do_job self ((sleep env ^^ Suc k) w1) of
          (None, w3) \<Rightarrow>
            worker_loop n self env (int k)
              \<lparr>countdown = int k, logged = logged s @ [e], world = sleep env w3\<rparr>
        | (Some e', w3) \<Rightarrow>
            if is_Exception e'
            then worker_loop n self env (int k)
              \<lparr>countdown = int k, logged = logged s @ [e, e'], world = sleep env w3\<rparr>
            else Some (Inl (e', \<lparr>countdown = 0, logged = logged s @ [e], world = w3\<rparr>)))"
  proof -
    have "\<not> is_set env ((sleep env ^^ Suc k) w1)"
      using quiet by (auto simp: funpow_swap1)
    then show ?thesis
      by (simp add: loop_body_def funpow_swap1 split: prod.splits option.splits)
  qed
  finally show ?thesis using b1 b2 by simp
qed

theorem job_failure_keeps_loop_witness:
  "loop_body failing_plugin stop_after_two 2 \<lparr>countdown = 0, logged = [], world = 0\<rparr>
     = Inr \<lparr>countdown = 2, logged = [OtherException ''boom''], world = 1\<rparr>
   \<and> worker_loop 5 failing_plugin stop_after_two 2 \<lparr>countdown = 0, logged = [], world = 0\<rparr>
     = Some (Inr \<lparr>countdown = 2,
                  logged = [OtherException ''boom'', OtherException ''boom''], world = 2\<rparr>)"
proof -
  have quiet:
    "\<forall>j\<le>2. \<not> is_set stop_after_two ((sleep stop_after_two ^^ j) (sleep stop_after_two 1))"
    by (simp add: stop_after_two_def)
  have five: "Suc (2 + Suc (Suc 0)) = 5" by simp
  show ?thesis
    using job_failure_keeps_loop [of "\<lparr>countdown = 0, logged = [], world = 0\<rparr>" stop_after_two
        failing_plugin "OtherException ''boom''" 1 2 2 "Suc 0", OF _ _ _ _ quiet]
    by (simp add: failing_plugin_def stop_after_two_def five)
qed

lemma default_do_job_is_caught:
  "countdown s = 0 \<Longrightarrow>
   \<exists>e. loop_body \<lparr>do_job = ThreadedPlugin_do_job, on_start = None, on_stop = None\<rparr>
          env interval s
        = Inr \<lparr>countdown = interval, logged = logged s @ [e], world = sleep env (world s)\<rparr>"
  by (simp add: loop_body_def ThreadedPlugin_do_job_def)

text \<open>
  C9 as the specification states it (every exception) fails for an exception outside
  \<open>Exception\<close>: a \<open>do_job\<close> that raises \<open>SystemExit\<close> ends the worker at its first
  call, with nothing logged, although the event is not set.
\<close>

theorem SystemExit_ends_loop:
  "worker 10 exiting_plugin stop_after_two 2 0
     = Some (Inl (SystemExit, \<lparr>countdown = 0, logged = [], world = 1\<rparr>))
   \<and> \<not> is_set stop_after_two 1"
  by (simp add: worker_def run_hook_def exiting_plugin_def stop_after_two_def loop_body_def
      numeral_nat)

section \<open>Properties of starting the worker\<close>

lemma worker_running_spawn: "worker_running (spawn interval s)"
  by (simp add: worker_running_def spawn_def is_alive_def)

lemma recorded_spawn:
  assumes "recorded s" and "\<not> worker_running s"
  shows "recorded (spawn interval s)"
proof -
  have dead: "\<not> alive (threads s ! t)" if "t < length (threads s)" for t
  proof
    assume a: "alive (threads s ! t)"
    with assms(1) that have "thread_attr s = Some t" by (simp add: recorded_def)
    with a that have "worker_running s" by (simp add: worker_running_def is_alive_def)
    with assms(2) show False by simp
  qed
  show ?thesis
    unfolding recorded_def
  proof (intro allI impI)
    fix t
    assume t: "t < length (threads (spawn interval s))"
      and a: "alive (threads (spawn interval s) ! t)"
    show "thread_attr (spawn interval s) = Some t"
    proof (cases "t < length (threads s)")
      case True
      with a dead show ?thesis by (simp add: spawn_def nth_append)
    next
      case False
      with t show ?thesis by (simp add: spawn_def)
    qed
  qed
qed

lemma reachable_recorded: "reachable s \<Longrightarrow> recorded s"
proof (induction rule: reachable.induct)
  case init
  show ?case by (simp add: recorded_def new_plugin_def)
next
  case (start s interval)
  then show ?case by (simp add: start_worker_def recorded_spawn)
next
  case (stop s)
  then show ?case by (simp add: recorded_def stop_worker_def split: option.splits)
next
  case (exit s t)
  then show ?case by (auto simp: recorded_def thread_exit_def nth_list_update)
qed

lemma active_loops_spawn: "active_loops (spawn interval s) = Suc (active_loops s)"
  by (simp add: active_loops_def spawn_def)

lemma active_loops_idle:
  assumes "recorded s" and "\<not> worker_running s"
  shows "active_loops s = 0"
proof -
  have "\<not> alive x" if "x \<in> set (threads s)" for x
  proof
    assume a: "alive x"
    from that obtain t where t: "t < length (threads s)" "threads s ! t = x"
      by (auto simp: in_set_conv_nth)
    with a assms(1) have "thread_attr s = Some t" by (simp add: recorded_def)
    with a t have "worker_running s" by (simp add: worker_running_def is_alive_def)
    with assms(2) show False by simp
  qed
  then show ?thesis by (simp add: active_loops_def filter_empty_conv)
qed

lemma active_loops_running:
  assumes "recorded s" and "worker_running s"
  shows "active_loops s = 1"
proof -
  from assms(2) obtain t where t: "thread_attr s = Some t" and run: "is_alive s t"
    unfolding worker_running_def by (cases "thread_attr s") simp_all
  from run have len: "t < length (threads s)" and al: "alive (threads s ! t)"
    by (simp_all add: is_alive_def)
  have "{i. i < length (threads s) \<and> alive (threads s ! i)} = {t}"
  proof (intro equalityI subsetI)
    fix i assume "i \<in> {i. i < length (threads s) \<and> alive (threads s ! i)}"
    then have "i < length (threads s)" "alive (threads s ! i)" by simp_all
    with assms(1) have "thread_attr s = Some i" unfolding recorded_def by blast
    with t show "i \<in> {t}" by simp
  next
    fix i assume "i \<in> {t}"
    with len al show "i \<in> {i. i < length (threads s) \<and> alive (threads s ! i)}" by simp
  qed
  then have "card {i. i < length (threads s) \<and> alive (threads s ! i)} = 1" by simp
  then show ?thesis
    unfolding active_loops_def length_filter_conv_card .
qed

text \<open>
  C10. A plugin object never has more than one live worker thread. If the thread that
  \<open>_thread\<close> holds is alive, \<open>start_worker\<close> changes nothing. A second call right after a first one changes nothing, whatever the state
  before the first, and leaves exactly one live worker thread. If no live worker is
  recorded, \<open>start_worker\<close> creates one event and one thread, started and alive, stores
  both in the attributes, and that thread is the only live one. The states are those a
  plugin object reaches from its creation by calls of \<open>start_worker\<close> and
  \<open>stop_worker\<close> made one after the other, and by threads ending.
\<close>

theorem start_worker_idempotent:
  assumes "reachable s"
  shows "active_loops s \<le> 1
    \<and> (worker_running s \<longrightarrow> start_worker interval s = s)
    \<and> start_worker interval' (start_worker interval s) = start_worker interval s
    \<and> active_loops (start_worker interval' (start_worker interval s)) = 1
    \<and> (\<not> worker_running s \<longrightarrow>
          threads (start_worker interval s)
            = threads s @ [\<lparr>alive = True, daemon = True, interval_kwarg = interval\<rparr>]
          \<and> thread_attr (start_worker interval s) = Some (length (threads s))
          \<and> events (start_worker interval s) = events s @ [False]
          \<and> event_attr (start_worker interval s) = Some (length (events s))
          \<and> active_loops s = 0
          \<and> active_loops (start_worker interval s) = 1
          \<and> worker_running (start_worker interval s))"
proof -
  have rec: "recorded s" using assms by (rule reachable_recorded)
  have run: "worker_running (start_worker interval s)"
    by (simp add: start_worker_def worker_running_spawn)
  have again: "start_worker interval' (start_worker interval s) = start_worker interval s"
    using run by (simp add: start_worker_def)
  have rec': "recorded (start_worker interval s)"
    using assms by (intro reachable_recorded reachable.start)
  from rec' run have one: "active_loops (start_worker interval s) = 1"
    by (rule active_loops_running)
  have noop: "start_worker interval s = s" if "worker_running s"
    using that by (simp add: start_worker_def)
  have fresh: "start_worker interval s = spawn interval s" if "\<not> worker_running s"
    using that by (simp add: start_worker_def)
  have idle: "active_loops s = 0" if "\<not> worker_running s"
    using rec that by (rule active_loops_idle)
  have new: "threads (start_worker interval s)
            = threads s @ [\<lparr>alive = True, daemon = True, interval_kwarg = interval\<rparr>]
          \<and> thread_attr (start_worker interval s) = Some (length (threads s))
          \<and> events (start_worker interval s) = events s @ [False]
          \<and> event_attr (start_worker interval s) = Some (length (events s))"
    if "\<not> worker_running s"
    unfolding fresh [OF that] by (simp add: spawn_def)
  have most: "active_loops s \<le> 1"
  proof (cases "worker_running s")
    case True
    with rec have "active_loops s = 1" by (rule active_loops_running)
    then show ?thesis by simp
  next
    case False
    with idle show ?thesis by simp
  qed
  from most noop again one idle new run show ?thesis
    by (simp only: simp_thms) blast
qed

theorem start_worker_idempotent_witness:
  "start_worker 30 (start_worker 60 new_plugin) = start_worker 60 new_plugin
   \<and> threads (start_worker 60 new_plugin)
       = [\<lparr>alive = True, daemon = True, interval_kwarg = 60\<rparr>]
   \<and> thread_attr (start_worker 60 new_plugin) = Some 0
   \<and> active_loops (start_worker 30 (start_worker 60 new_plugin)) = 1"
proof -
  have idle: "\<not> worker_running new_plugin"
    by (simp add: worker_running_def new_plugin_def)
  have none: "threads new_plugin = []"
    by (simp add: new_plugin_def)
  note t = start_worker_idempotent [OF reachable.init, of 60 30]
  from t have a: "start_worker 30 (start_worker 60 new_plugin) = start_worker 60 new_plugin"
    by blast
  from t idle have b: "threads (start_worker 60 new_plugin)
      = threads new_plugin @ [\<lparr>alive = True, daemon = True, interval_kwarg = 60\<rparr>]"
    by blast
  from t idle have c: "thread_attr (start_worker 60 new_plugin) = Some (length (threads new_plugin))"
    by blast
  from t have d: "active_loops (start_worker 30 (start_worker 60 new_plugin)) = 1"
    by blast
  from a b c d show ?thesis
    unfolding none by simp
qed


end
